theory Spec2Isabelle
  imports Complex_Main "HOL-Library.Sublist"
begin

section \<open>Strings\<close>

text \<open>
  JavaScript strings are modelled as \<^typ>\<open>string\<close>: the bytes of their UTF-8 encoding, so
  ASCII text is itself.
\<close>

text \<open>
  \<^verbatim>\<open>String.prototype.toLowerCase\<close>. The letters A to Z get bit \<open>0x20\<close> set. Beyond ASCII
  one code point lower-cases to an ASCII letter, the Kelvin sign U+212A (bytes
  \<open>E2 84 AA\<close>) to \<open>k\<close>. Every other code point beyond ASCII has a lower-case form that
  holds a code point beyond ASCII (U+0130 gives \<open>i\<close> followed by U+0307) and is left as it
  is here, so the result equals a given ASCII string, or starts with one, exactly when
  JavaScript's does.
\<close>

definition toLowerCase_char :: "char \<Rightarrow> char" where
  "toLowerCase_char c =
     (if c \<in> set ''ABCDEFGHIJKLMNOPQRSTUVWXYZ''
      then (case c of Char b0 b1 b2 b3 b4 b5 b6 b7 \<Rightarrow> Char b0 b1 b2 b3 b4 True b6 b7)
      else c)"

fun toLowerCase :: "string \<Rightarrow> string" where
  "toLowerCase (c1 # c2 # c3 # cs) =
     (if c1 = CHR 0xE2 \<and> c2 = CHR 0x84 \<and> c3 = CHR 0xAA then CHR ''k'' # toLowerCase cs
      else toLowerCase_char c1 # toLowerCase (c2 # c3 # cs))"
| "toLowerCase (c # cs) = toLowerCase_char c # toLowerCase cs"
| "toLowerCase [] = []"

text \<open>\<^verbatim>\<open>name.startsWith('mcp__')\<close>.\<close>

definition startsWith :: "string \<Rightarrow> string \<Rightarrow> bool" where
  "startsWith s p = prefix p s"

text \<open>Truthiness of an optional string field: absent and the empty string are falsy.\<close>

definition truthy :: "string option \<Rightarrow> bool" where
  "truthy f = (case f of None \<Rightarrow> False | Some s \<Rightarrow> s \<noteq> [])"

section \<open>Data model\<close>

text \<open>Values of type \<^verbatim>\<open>any\<close> that the components only print (a tool's input).\<close>

datatype json =
    JNull
  | JBool bool
  | JNum int
  | JStr string
  | JArr "json list"
  | JObj "(string \<times> json) list"

text \<open>
  An element of \<^verbatim>\<open>message.content\<close>. The field \<^verbatim>\<open>type\<close> is \<open>btype\<close>, \<^verbatim>\<open>id\<close> is
  \<open>id_blk\<close>, \<^verbatim>\<open>text\<close> is \<open>text_blk\<close>, and the \<^verbatim>\<open>content\<close> of a tool result is \<open>result_content\<close>; an absent field
  is \<open>None\<close>.
\<close>

record content_block =
  btype :: string
  text_blk :: "string option"
  id_blk :: "string option"
  name :: "string option"
  input :: "json option"
  tool_use_id :: "string option"
  result_content :: "string option"

text \<open>
  \<^verbatim>\<open>message.content\<close>: absent (or \<^verbatim>\<open>null\<close>), a string, or an array of blocks; the
  components test \<^verbatim>\<open>Array.isArray\<close> before they walk it.
\<close>

datatype content_field =
    NoContent
  | StrContent string
  | ArrContent "content_block list"

record usage_t =
  input_tokens :: int
  output_tokens :: int

record inner_message =
  content :: content_field
  usage :: "usage_t option"

text \<open>
  \<^verbatim>\<open>interface ClaudeStreamMessage\<close> with the fields the components read through its index
  signature. \<^verbatim>\<open>type\<close> is \<open>mtype\<close>, the top-level \<^verbatim>\<open>usage\<close> is \<open>top_usage\<close>, and
  \<open>isMeta\<close> is the truthiness of the flag. An object without a \<^verbatim>\<open>type\<close> has the empty
  \<open>mtype\<close>, which none of the comparisons of the components matches.
\<close>

record ClaudeStreamMessage =
  mtype :: string
  subtype :: "string option"
  message :: "inner_message option"
  top_usage :: "usage_t option"
  isMeta :: bool
  leafUuid :: "string option"
  summary :: "string option"
  session_id :: "string option"
  model :: "string option"
  cwd :: "string option"
  tools :: "string list option"
  is_error :: "bool option"
  result :: "string option"
  error :: "string option"
  cost_usd :: "real option"
  duration_ms :: "int option"
  num_turns :: "int option"

text \<open>
  What the message list holds. \<^verbatim>\<open>JSON.parse(line) as ClaudeStreamMessage\<close> is a cast, not
  a check: a line of valid JSON that is no object parses without an exception and its
  value is stored like an event. Reading a property of \<^verbatim>\<open>null\<close> throws a
  \<^verbatim>\<open>TypeError\<close>; reading one of a number, a string, a boolean or an array (\<open>Other\<close>) gives
  \<^verbatim>\<open>undefined\<close>.
\<close>

datatype stream_value =
    Obj ClaudeStreamMessage
  | Null
  | Other json

datatype js_error =
    TypeError

section \<open>The visibility filter (\<^verbatim>\<open>displayableMessages\<close>)\<close>

definition toolsWithWidgets :: "string list" where
  "toolsWithWidgets =
     [''task'', ''edit'', ''multiedit'', ''todowrite'', ''ls'', ''read'',
      ''glob'', ''bash'', ''write'', ''grep'']"

text \<open>
  The test made on the matched block:
  \<^verbatim>\<open>toolsWithWidgets.includes(toolUse.name?.toLowerCase()) || toolUse.name?.startsWith('mcp__')\<close>.
  Without a name both sides are falsy.
\<close>

definition has_widget :: "content_block \<Rightarrow> bool" where
  "has_widget toolUse =
     (case name toolUse of
        None \<Rightarrow> False
      | Some n \<Rightarrow> toLowerCase n \<in> set toolsWithWidgets \<or> startsWith n ''mcp__'')"

text \<open>
  The body of the backward loop at one earlier message: only an assistant message whose
  content is an array is searched, with
  \<^verbatim>\<open>content.find(c => c.type === 'tool_use' && c.id === content.tool_use_id)\<close>.
\<close>

definition find_tool_use :: "ClaudeStreamMessage \<Rightarrow> string \<Rightarrow> content_block option" where
  "find_tool_use prevMsg t =
     (if mtype prevMsg = ''assistant'' then
        (case message prevMsg of
           None \<Rightarrow> None
         | Some msg \<Rightarrow>
             (case content msg of
                ArrContent cs \<Rightarrow> find (\<lambda>c. btype c = ''tool_use'' \<and> id_blk c = Some t) cs
              | _ \<Rightarrow> None))
      else None)"

text \<open>
  \<^verbatim>\<open>for (let i = index - 1; i >= 0; i--)\<close>: the second argument is \<open>i + 1\<close>. The loop
  stops (\<^verbatim>\<open>break\<close>) at the first message that holds a matching block, whatever the test
  on its name says; \<^verbatim>\<open>prevMsg.type\<close> throws when \<^verbatim>\<open>prevMsg\<close> is \<^verbatim>\<open>null\<close>. The filter calls
  it with \<open>index < length messages\<close>, so every read \<open>messages ! i\<close> is in range.
\<close>

fun scan_back :: "stream_value list \<Rightarrow> nat \<Rightarrow> string \<Rightarrow> js_error + bool" where
  "scan_back messages 0 t = Inr False"
| "scan_back messages (Suc i) t =
     (case messages ! i of
        Null \<Rightarrow> Inl TypeError
      | Other _ \<Rightarrow> scan_back messages i t
      | Obj prevMsg \<Rightarrow>
          (case find_tool_use prevMsg t of
             Some toolUse \<Rightarrow> Inr (has_widget toolUse)
           | None \<Rightarrow> scan_back messages i t))"

text \<open>The value of \<^verbatim>\<open>willBeSkipped\<close> after \<^verbatim>\<open>if (content.tool_use_id) { ... }\<close>.\<close>

definition willBeSkipped :: "stream_value list \<Rightarrow> nat \<Rightarrow> content_block \<Rightarrow> js_error + bool" where
  "willBeSkipped messages index c =
     (case tool_use_id c of
        None \<Rightarrow> Inr False
      | Some t \<Rightarrow> if t = [] then Inr False else scan_back messages index t)"

text \<open>The loop over the blocks of a user message, with its two \<^verbatim>\<open>break\<close>s.\<close>

fun hasVisibleContent ::
  "stream_value list \<Rightarrow> nat \<Rightarrow> content_block list \<Rightarrow> js_error + bool" where
  "hasVisibleContent messages index [] = Inr False"
| "hasVisibleContent messages index (c # cs) =
     (if btype c = ''text'' then Inr True
      else if btype c = ''tool_result'' then
        (case willBeSkipped messages index c of
           Inl e \<Rightarrow> Inl e
         | Inr skipped \<Rightarrow>
             if \<not> skipped then Inr True else hasVisibleContent messages index cs)
      else hasVisibleContent messages index cs)"

text \<open>
  The callback of \<^verbatim>\<open>messages.filter((message, index) => ...)\<close>. Its first read,
  \<^verbatim>\<open>message.isMeta\<close>, throws on \<^verbatim>\<open>null\<close>; for a value that is no object every read is
  \<^verbatim>\<open>undefined\<close> and the callback returns \<^verbatim>\<open>true\<close>.
\<close>

definition keep :: "stream_value list \<Rightarrow> nat \<Rightarrow> stream_value \<Rightarrow> js_error + bool" where
  "keep messages index v =
     (case v of
        Null \<Rightarrow> Inl TypeError
      | Other _ \<Rightarrow> Inr True
      | Obj m \<Rightarrow>
          if isMeta m \<and> \<not> truthy (leafUuid m) \<and> \<not> truthy (summary m) then Inr False
          else
            (case message m of
               Some msg \<Rightarrow>
                 (if mtype m = ''user'' then
                    (if isMeta m then Inr False
                     else
                       (case content msg of
                          NoContent \<Rightarrow> Inr False
                        | StrContent s \<Rightarrow> Inr (s \<noteq> [])
                        | ArrContent cs \<Rightarrow>
                            if cs = [] then Inr False
                            else hasVisibleContent messages index cs))
                  else Inr True)
             | None \<Rightarrow> Inr True))"

text \<open>
  \<^verbatim>\<open>Array.prototype.filter\<close>: the callback is called on the elements in order, each with
  its index, and the first exception ends the loop.
\<close>

fun filter_loop ::
  "stream_value list \<Rightarrow> nat \<Rightarrow> stream_value list \<Rightarrow> js_error + stream_value list" where
  "filter_loop messages index [] = Inr []"
| "filter_loop messages index (v # rest) =
     (case keep messages index v of
        Inl e \<Rightarrow> Inl e
      | Inr kept \<Rightarrow>
          (case filter_loop messages (Suc index) rest of
             Inl e \<Rightarrow> Inl e
           | Inr out \<Rightarrow> Inr (if kept then v # out else out)))"

text \<open>
  \<^verbatim>\<open>AgentExecution\<close> passes the callback its index. \<^verbatim>\<open>AgentRunOutputViewer\<close> starts the
  backward loop at \<^verbatim>\<open>messages.indexOf(message) - 1\<close>; \<^verbatim>\<open>indexOf\<close> compares object
  identity and every element of the array is an object of its own, so that is the same
  index.
\<close>

definition displayableMessages :: "stream_value list \<Rightarrow> js_error + stream_value list" where
  "displayableMessages messages = filter_loop messages 0 messages"

section \<open>Lines of a JSONL text\<close>

text \<open>\<^verbatim>\<open>rawOutput.split('\n')\<close>: the pieces between line feeds, at least one piece.\<close>

fun split_nl :: "string \<Rightarrow> string list" where
  "split_nl [] = [[]]"
| "split_nl (c # cs) =
     (if c = CHR 0x0A then [] # split_nl cs
      else (case split_nl cs of
              [] \<Rightarrow> [[c]]
            | line # lines \<Rightarrow> (c # line) # lines))"

text \<open>\<^verbatim>\<open>line.trim()\<close> over the ASCII white space (tab, LF, VT, FF, CR, space).\<close>

definition is_space :: "char \<Rightarrow> bool" where
  "is_space c = (c \<in> set [CHR 0x09, CHR 0x0A, CHR 0x0B, CHR 0x0C, CHR 0x0D, CHR '' ''])"

definition trim :: "string \<Rightarrow> string" where
  "trim line = rev (dropWhile is_space (rev (dropWhile is_space line)))"

text \<open>\<^verbatim>\<open>rawOutput.split('\n').filter(line => line.trim())\<close>.\<close>

definition jsonl_lines :: "string \<Rightarrow> string list" where
  "jsonl_lines rawOutput = filter (\<lambda>line. trim line \<noteq> []) (split_nl rawOutput)"

text \<open>\<^verbatim>\<open>Array.prototype.join\<close> on a list of strings.\<close>

fun join :: "string \<Rightarrow> string list \<Rightarrow> string" where
  "join sep [] = []"
| "join sep [line] = line"
| "join sep (line # next # lines) = line @ sep @ join sep (next # lines)"

section \<open>Component state\<close>

text \<open>What \<^verbatim>\<open>console.error\<close> and \<^verbatim>\<open>console.warn\<close> are called with.\<close>

datatype console_entry =
    ParseFailed string
  | LoadFailed
  | StreamStartFailed

text \<open>
  The state \<^verbatim>\<open>AgentExecution\<close> and \<^verbatim>\<open>AgentRunOutputViewer\<close> both hold: the two
  \<^verbatim>\<open>useState\<close> lists, the scroll flag, whether the handler of the channel
  \<^verbatim>\<open>agent-output:<run id>\<close> is registered, and the console.
\<close>

record component_state =
  messages :: "stream_value list"
  rawJsonlOutput :: "string list"
  hasUserScrolled :: bool
  output_listener :: bool
  console :: "console_entry list"

text \<open>
  The handler both components register on \<^verbatim>\<open>agent-output:<run id>\<close>. \<^verbatim>\<open>JSON.parse\<close> is
  the parameter \<open>parse\<close>: \<open>None\<close> where it throws, and otherwise the value of the line, an
  object or not. The raw line is stored before the line is parsed; a line on which
  \<^verbatim>\<open>JSON.parse\<close> throws is reported on the console and adds no message; every other line
  adds its value. Without a registered handler the event reaches nobody.
\<close>

definition agent_output ::
  "(string \<Rightarrow> stream_value option) \<Rightarrow> string \<Rightarrow>
     'a component_state_scheme \<Rightarrow> 'a component_state_scheme" where
  "agent_output parse payload s =
     (if \<not> output_listener s then s
      else
        (let s1 = s\<lparr>rawJsonlOutput := rawJsonlOutput s @ [payload]\<rparr>
         in case parse payload of
              Some m \<Rightarrow> s1\<lparr>messages := messages s1 @ [m]\<rparr>
            | None \<Rightarrow> s1\<lparr>console := console s1 @ [ParseFailed payload]\<rparr>))"

section \<open>\<^verbatim>\<open>AgentRunOutputViewer\<close>: loading the output\<close>

text \<open>The fields of the \<^verbatim>\<open>run\<close> property that \<^verbatim>\<open>loadOutput\<close> reads.\<close>

record AgentRunWithMetrics =
  run_id :: "nat option"
  run_status :: string

text \<open>
  The object \<^verbatim>\<open>loadOutput\<close> hands to \<^verbatim>\<open>setCachedOutput\<close>; its field \<^verbatim>\<open>output\<close> is
  \<open>output_text\<close> and \<^verbatim>\<open>messages\<close> is \<open>cached_messages\<close>.
\<close>

record CachedSessionOutput =
  output_text :: string
  cached_messages :: "stream_value list"
  lastUpdated :: int
  status :: string

datatype toast_t =
    LoadFailedToast

record container =
  scrollTop :: real
  scrollHeight :: real
  clientHeight :: real

text \<open>
  The state of the viewer. \<open>cache\<close> is the process-wide output cache behind
  \<^verbatim>\<open>useOutputCache\<close>, \<open>scroll_container\<close> is
  \<^verbatim>\<open>isFullscreen ? fullscreenScrollRef.current : scrollAreaRef.current\<close> and \<open>end_ref\<close> says
  whether the end marker of that container is mounted.
\<close>

record viewer = component_state +
  loading :: bool
  toast :: "toast_t option"
  cache :: "nat \<rightharpoonup> CachedSessionOutput"
  scroll_container :: "container option"
  end_ref :: bool

text \<open>
  Modelled from the spec: \<^verbatim>\<open>getCachedOutput\<close> of \<^verbatim>\<open>lib/outputCache\<close>, which is not among
  the sources. The SnapshotCache's \<open>get\<close> is synchronous and without I/O: a lookup of the
  run id.
\<close>

definition getCachedOutput :: "viewer \<Rightarrow> nat \<Rightarrow> CachedSessionOutput option" where
  "getCachedOutput v rid = cache v rid"

text \<open>
  Modelled from the spec: \<^verbatim>\<open>setCachedOutput\<close> of \<^verbatim>\<open>lib/outputCache\<close>, which is not among
  the sources. The SnapshotCache's \<open>put\<close> overwrites: the entry replaces the prior entry
  of that run id.
\<close>

definition setCachedOutput :: "nat \<Rightarrow> CachedSessionOutput \<Rightarrow> viewer \<Rightarrow> viewer" where
  "setCachedOutput rid entry v = v\<lparr>cache := (cache v)(rid \<mapsto> entry)\<rparr>"

text \<open>The viewer as its \<^verbatim>\<open>useState\<close> and \<^verbatim>\<open>useRef\<close> calls create it, with an empty cache.\<close>

definition initial_viewer :: viewer where
  "initial_viewer =
     \<lparr>messages = [], rawJsonlOutput = [], hasUserScrolled = False, output_listener = False,
      console = [], loading = False, toast = None, cache = Map.empty,
      scroll_container = None, end_ref = False\<rparr>"

text \<open>
  \<^verbatim>\<open>loadOutput\<close> up to \<^verbatim>\<open>await api.getSessionOutput(run.id)\<close>. The result says whether the
  fetch is issued; \<open>now\<close> is \<^verbatim>\<open>Date.now()\<close>. A \<^verbatim>\<open>return\<close> inside the \<^verbatim>\<open>try\<close> still runs
  the \<^verbatim>\<open>finally\<close> block.
\<close>

definition loadOutput_start ::
  "bool \<Rightarrow> int \<Rightarrow> AgentRunWithMetrics \<Rightarrow> viewer \<Rightarrow> viewer \<times> bool" where
  "loadOutput_start skipCache now run v =
     (case run_id run of
        None \<Rightarrow> (v, False)
      | Some rid \<Rightarrow>
          if rid = 0 then (v, False)
          else if skipCache then (v\<lparr>loading := True\<rparr>, True)
          else
            (case getCachedOutput v rid of
               None \<Rightarrow> (v\<lparr>loading := True\<rparr>, True)
             | Some cached \<Rightarrow>
                 (let v1 = v\<lparr>rawJsonlOutput := jsonl_lines (output_text cached),
                              messages := cached_messages cached\<rparr>
                  in if now - lastUpdated cached < 5000 \<and> run_status run \<noteq> ''running''
                     then (v1\<lparr>loading := False\<rparr>, False)
                     else (v1\<lparr>loading := True\<rparr>, True))))"

text \<open>
  \<^verbatim>\<open>for (const line of jsonlLines) { try { parsedMessages.push(JSON.parse(line)) } catch ... }\<close>
  with the list built so far and the console as accumulators.
\<close>

fun parse_loop ::
  "(string \<Rightarrow> stream_value option) \<Rightarrow> string list \<Rightarrow>
     stream_value list \<Rightarrow> console_entry list \<Rightarrow>
     stream_value list \<times> console_entry list" where
  "parse_loop parse [] parsedMessages errs = (parsedMessages, errs)"
| "parse_loop parse (line # rest) parsedMessages errs =
     (case parse line of
        Some m \<Rightarrow> parse_loop parse rest (parsedMessages @ [m]) errs
      | None \<Rightarrow> parse_loop parse rest parsedMessages (errs @ [ParseFailed line]))"

text \<open>
  The first, synchronous part of \<^verbatim>\<open>setupLiveEventListeners\<close>: the old listeners are
  removed; the new ones exist once \<^verbatim>\<open>await listen(...)\<close> has resolved
  (\<open>output_listener_registered\<close>).
\<close>

definition setupLiveEventListeners :: "viewer \<Rightarrow> viewer" where
  "setupLiveEventListeners v = v\<lparr>output_listener := False\<rparr>"

definition output_listener_registered :: "viewer \<Rightarrow> viewer" where
  "output_listener_registered v = v\<lparr>output_listener := True\<rparr>"

text \<open>
  \<^verbatim>\<open>loadOutput\<close> from the moment the fetch resolves with \<open>rawOutput\<close>, up to
  \<^verbatim>\<open>await api.streamSessionOutput(run.id)\<close> for a running run and to the end otherwise;
  \<open>now\<close> is the \<^verbatim>\<open>Date.now()\<close> stored in the cache entry. It is reached only after
  \<open>loadOutput_start\<close> has issued the fetch, so \<^verbatim>\<open>run.id\<close> is present.
\<close>

definition loadOutput_resolved ::
  "(string \<Rightarrow> stream_value option) \<Rightarrow> int \<Rightarrow> AgentRunWithMetrics \<Rightarrow> string \<Rightarrow>
     viewer \<Rightarrow> viewer" where
  "loadOutput_resolved parse now run rawOutput v =
     (case run_id run of
        None \<Rightarrow> v
      | Some rid \<Rightarrow>
          (let jsonlLines = jsonl_lines rawOutput;
               (parsedMessages, errs) = parse_loop parse jsonlLines [] (console v);
               v1 = v\<lparr>rawJsonlOutput := jsonlLines, messages := parsedMessages, console := errs\<rparr>;
               v2 = setCachedOutput rid
                      \<lparr>output_text = rawOutput, cached_messages = parsedMessages,
                       lastUpdated = now, status = run_status run\<rparr> v1
           in if run_status run = ''running'' then setupLiveEventListeners v2
              else v2\<lparr>loading := False\<rparr>))"


text \<open>The \<^verbatim>\<open>catch\<close> and \<^verbatim>\<open>finally\<close> of \<^verbatim>\<open>loadOutput\<close> when the fetch is rejected.\<close>

definition loadOutput_rejected :: "viewer \<Rightarrow> viewer" where
  "loadOutput_rejected v =
     v\<lparr>console := console v @ [LoadFailed], toast := Some LoadFailedToast, loading := False\<rparr>"

section \<open>\<^verbatim>\<open>AgentRunOutputViewer\<close>: scrolling\<close>

definition distanceFromBottom :: "container \<Rightarrow> real" where
  "distanceFromBottom c = scrollHeight c - scrollTop c - clientHeight c"

definition isAtBottom :: "viewer \<Rightarrow> bool" where
  "isAtBottom v =
     (case scroll_container v of
        Some c \<Rightarrow> distanceFromBottom c < 1
      | None \<Rightarrow> True)"

text \<open>
  The browser's part, not in the sources: \<^verbatim>\<open>endRef.scrollIntoView\<close> on the marker that
  closes the content leaves the container at its largest scroll offset, and a new layout
  gives the container its new content height.
\<close>

definition scrollIntoView :: "viewer \<Rightarrow> viewer" where
  "scrollIntoView v =
     v\<lparr>scroll_container :=
         map_option (\<lambda>c. c\<lparr>scrollTop := scrollHeight c - clientHeight c\<rparr>) (scroll_container v)\<rparr>"

definition layout :: "real \<Rightarrow> viewer \<Rightarrow> viewer" where
  "layout h v =
     v\<lparr>scroll_container := map_option (\<lambda>c. c\<lparr>scrollHeight := h\<rparr>) (scroll_container v)\<rparr>"

definition scrollToBottom :: "viewer \<Rightarrow> viewer" where
  "scrollToBottom v =
     (if \<not> hasUserScrolled v then (if end_ref v then scrollIntoView v else v) else v)"

text \<open>The effect on \<^verbatim>\<open>[messages, hasUserScrolled, isFullscreen]\<close>.\<close>

definition autoScroll_effect :: "viewer \<Rightarrow> viewer" where
  "autoScroll_effect v =
     (let shouldAutoScroll = (\<not> hasUserScrolled v \<or> isAtBottom v)
      in if shouldAutoScroll then scrollToBottom v else v)"

text \<open>
  \<^verbatim>\<open>handleScroll\<close>; the argument is the event's \<^verbatim>\<open>currentTarget\<close>, the container as the
  scroll has left it.
\<close>

definition handleScroll :: "container \<Rightarrow> viewer \<Rightarrow> viewer" where
  "handleScroll target v = v\<lparr>hasUserScrolled := (distanceFromBottom target > 50)\<rparr>"

text \<open>A scroll by the user to offset \<open>pos\<close>, and an append that renders to content height \<open>h\<close>.\<close>

definition user_scroll :: "real \<Rightarrow> viewer \<Rightarrow> viewer" where
  "user_scroll pos v =
     (case scroll_container v of
        None \<Rightarrow> v
      | Some c \<Rightarrow>
          handleScroll (c\<lparr>scrollTop := pos\<rparr>) (v\<lparr>scroll_container := Some (c\<lparr>scrollTop := pos\<rparr>)\<rparr>))"

definition item_appended :: "stream_value \<Rightarrow> real \<Rightarrow> viewer \<Rightarrow> viewer" where
  "item_appended m h v = autoScroll_effect (layout h (v\<lparr>messages := messages v @ [m]\<rparr>))"

section \<open>\<^verbatim>\<open>AgentExecution\<close>: stopping and exporting\<close>

text \<open>An event object that has only its \<^verbatim>\<open>type\<close>, and a block that has only its \<^verbatim>\<open>type\<close>.\<close>

definition event :: "string \<Rightarrow> ClaudeStreamMessage" where
  "event ty =
     \<lparr>mtype = ty, subtype = None, message = None, top_usage = None, isMeta = False,
      leafUuid = None, summary = None, session_id = None, model = None, cwd = None,
      tools = None, is_error = None, result = None, error = None, cost_usd = None,
      duration_ms = None, num_turns = None\<rparr>"

definition block :: "string \<Rightarrow> content_block" where
  "block ty =
     \<lparr>btype = ty, text_blk = None, id_blk = None, name = None, input = None,
      tool_use_id = None, result_content = None\<rparr>"




























text \<open>\<^verbatim>\<open>handleCopyAsJsonl\<close>: the text written to the clipboard.\<close>

definition handleCopyAsJsonl :: "'a component_state_scheme \<Rightarrow> string" where
  "handleCopyAsJsonl s = join [CHR 0x0A] (rawJsonlOutput s)"















section \<open>\<^verbatim>\<open>AgentExecution\<close>: the row virtualizer\<close>

text \<open>The two scroll containers of the component.\<close>

datatype scroll_ref =
    scrollContainerRef
  | fullscreenScrollRef

text \<open>
  The options object given to \<^verbatim>\<open>useVirtualizer\<close>, with \<open>getItemKey\<close> for the key function
  the library accepts; the component passes none.
\<close>

record virtualizer_options =
  count :: nat
  getScrollElement :: scroll_ref
  estimateSize :: "nat \<Rightarrow> nat"
  overscan :: nat
  getItemKey :: "(nat \<Rightarrow> nat) option"

text \<open>
  \<^verbatim>\<open>rowVirtualizer\<close> and \<^verbatim>\<open>fullscreenRowVirtualizer\<close>: the options are computed from the
  value of the \<^verbatim>\<open>displayableMessages\<close> memo, of which only the length is passed on.
\<close>

definition rowVirtualizer :: "stream_value list \<Rightarrow> virtualizer_options" where
  "rowVirtualizer displayable =
     \<lparr>count = length displayable, getScrollElement = scrollContainerRef,
      estimateSize = (\<lambda>_. 150), overscan = 5, getItemKey = None\<rparr>"

definition fullscreenRowVirtualizer :: "stream_value list \<Rightarrow> virtualizer_options" where
  "fullscreenRowVirtualizer displayable =
     \<lparr>count = length displayable, getScrollElement = fullscreenScrollRef,
      estimateSize = (\<lambda>_. 150), overscan = 5, getItemKey = None\<rparr>"

text \<open>
  What a rendered row shows: \<^verbatim>\<open>displayableMessages[virtualItem.index]\<close>, for an index
  below \<^verbatim>\<open>count\<close>.
\<close>

definition virtual_row :: "stream_value list \<Rightarrow> nat \<Rightarrow> stream_value" where
  "virtual_row displayable index = displayable ! index"

section \<open>The visibility rules in the words of the specification\<close>

text \<open>
  The blocks of an \<open>Assistant\<close> message; the preceding messages are scanned most recent
  first and the first \<open>ToolUse\<close> block with the wanted id wins.
\<close>

definition blocks_of :: "ClaudeStreamMessage \<Rightarrow> content_block list" where
  "blocks_of m =
     (if mtype m = ''assistant'' then
        (case message m of
           Some msg \<Rightarrow> (case content msg of ArrContent cs \<Rightarrow> cs | _ \<Rightarrow> [])
         | None \<Rightarrow> [])
      else [])"

definition matched_ToolUse :: "ClaudeStreamMessage list \<Rightarrow> string \<Rightarrow> content_block option" where
  "matched_ToolUse preceding t =
     (case filter (\<lambda>c. btype c = ''tool_use'' \<and> id_blk c = Some t)
             (concat (map blocks_of (rev preceding))) of
        [] \<Rightarrow> None
      | toolUse # _ \<Rightarrow> Some toolUse)"

text \<open>
  A tool is self-rendering when its name, lower-cased, is one of the ten names, or when
  the name starts with \<^verbatim>\<open>mcp__\<close>.
\<close>

definition self_rendering :: "content_block \<Rightarrow> bool" where
  "self_rendering toolUse =
     (case name toolUse of
        None \<Rightarrow> False
      | Some n \<Rightarrow>
          toLowerCase n \<in>
            {''task'', ''edit'', ''multiedit'', ''todowrite'', ''ls'', ''read'', ''glob'',
             ''bash'', ''write'', ''grep''}
          \<or> prefix ''mcp__'' n)"

text \<open>
  A tool result is excluded when it names a tool use, by a \<open>tool_use_id\<close> that is present
  and not empty, and the matched tool use is self-rendering. A result without a matching
  tool use is not excluded.
\<close>

definition excluded :: "ClaudeStreamMessage list \<Rightarrow> content_block \<Rightarrow> bool" where
  "excluded preceding c =
     (case tool_use_id c of
        None \<Rightarrow> False
      | Some t \<Rightarrow>
          t \<noteq> [] \<and>
          (case matched_ToolUse preceding t of
             None \<Rightarrow> False
           | Some toolUse \<Rightarrow> self_rendering toolUse))"

text \<open>
  The rules of the specification, in their order. Rule 1 drops a meta message that has
  neither leaf link nor summary. Rule 2 is for a user event: dropped when meta, dropped
  when its content is absent or an empty list, and otherwise visible exactly when the
  list holds a text block or a tool result that is not excluded. Rule 3 shows everything
  else. The rules speak of a content list; for a user event with no message object, or
  with a string as content, the answer written here is the one of the components (shown,
  unless the string is empty).
\<close>

definition visible :: "ClaudeStreamMessage list \<Rightarrow> ClaudeStreamMessage \<Rightarrow> bool" where
  "visible preceding m =
     (if isMeta m \<and> \<not> truthy (leafUuid m) \<and> \<not> truthy (summary m) then False
      else if mtype m = ''user'' \<and> message m \<noteq> None then
        \<not> isMeta m \<and>
        (case content (the (message m)) of
           NoContent \<Rightarrow> False
         | StrContent s \<Rightarrow> s \<noteq> []
         | ArrContent cs \<Rightarrow>
             list_ex (\<lambda>c. btype c = ''text'' \<or> (btype c = ''tool_result'' \<and> \<not> excluded preceding c)) cs)
      else True)"

text \<open>
  The visible projection of a log of event objects: the messages that are visible given
  the messages before them, in log order.
\<close>

definition projection :: "ClaudeStreamMessage list \<Rightarrow> ClaudeStreamMessage list" where
  "projection ms =
     map snd (filter (\<lambda>(index, m). visible (take index ms) m) (zip [0 ..< length ms] ms))"

section \<open>Sample inputs\<close>

text \<open>Events, logs and component states used as concrete inputs below.\<close>

definition tool_use_block :: "string \<Rightarrow> string \<Rightarrow> content_block" where
  "tool_use_block i n = (block ''tool_use'')\<lparr>id_blk := Some i, name := Some n, input := Some (JObj [])\<rparr>"

definition tool_result_block :: "string \<Rightarrow> string \<Rightarrow> content_block" where
  "tool_result_block t c = (block ''tool_result'')\<lparr>tool_use_id := Some t, result_content := Some c\<rparr>"

definition text_block :: "string \<Rightarrow> content_block" where
  "text_block s = (block ''text'')\<lparr>text_blk := Some s\<rparr>"

definition with_content :: "string \<Rightarrow> content_block list \<Rightarrow> ClaudeStreamMessage" where
  "with_content ty cs = (event ty)\<lparr>message := Some \<lparr>content = ArrContent cs, usage = None\<rparr>\<rparr>"

text \<open>A tool use named \<open>n\<close> with id \<^verbatim>\<open>t1\<close>, followed by its result.\<close>

definition paired_log :: "string \<Rightarrow> ClaudeStreamMessage list" where
  "paired_log n =
     [with_content ''assistant'' [tool_use_block ''t1'' n],
      with_content ''user'' [tool_result_block ''t1'' ''ok'']]"

text \<open>The same pair with the empty string as the id on both sides.\<close>

definition empty_id_log :: "string \<Rightarrow> ClaudeStreamMessage list" where
  "empty_id_log n =
     [with_content ''assistant'' [tool_use_block [] n],
      with_content ''user'' [tool_result_block [] ''ok'']]"

text \<open>A user message whose tool result has no matching tool use.\<close>

definition orphan_log :: "ClaudeStreamMessage list" where
  "orphan_log = [with_content ''user'' [tool_result_block ''t9'' ''ok'']]"

text \<open>A hidden meta message followed by an assistant message, and that message alone.\<close>

definition meta_first_log :: "ClaudeStreamMessage list" where
  "meta_first_log =
     [(with_content ''user'' [text_block ''caveat''])\<lparr>isMeta := True\<rparr>,
      with_content ''assistant'' [text_block ''hello'']]"

definition hello_log :: "ClaudeStreamMessage list" where
  "hello_log = [with_content ''assistant'' [text_block ''hello'']]"

text \<open>
  \<^verbatim>\<open>JSON.parse\<close> on the lines of the examples: the two objects and \<^verbatim>\<open>null\<close> parse; any
  other line stands for one on which \<^verbatim>\<open>JSON.parse\<close> throws, as \<^verbatim>\<open>not json\<close> is.
\<close>

definition sample_parse :: "string \<Rightarrow> stream_value option" where
  \<open>sample_parse line =
     (if line = ''{"type":"system"}'' then Some (Obj (event ''system''))
      else if line = ''{"type":"result"}'' then Some (Obj (event ''result''))
      else if line = ''null'' then Some Null
      else None)\<close>

text \<open>A run with id 7 and the given status.\<close>

definition sample_run :: "string \<Rightarrow> AgentRunWithMetrics" where
  "sample_run st = \<lparr>run_id = Some 7, run_status = st\<rparr>"


text \<open>A cache entry for that run, stamped and with the status it records.\<close>

definition sample_entry :: "int \<Rightarrow> string \<Rightarrow> CachedSessionOutput" where
  \<open>sample_entry stamp st =
     \<lparr>output_text = ''{"type":"system"}'', cached_messages = [Obj (event ''system'')],
      lastUpdated = stamp, status = st\<rparr>\<close>

definition cached_viewer :: "int \<Rightarrow> string \<Rightarrow> viewer" where
  "cached_viewer stamp st = setCachedOutput 7 (sample_entry stamp st) initial_viewer"


text \<open>A mounted viewer at the bottom of a container of height 100 with content of height 400.\<close>

definition mounted_viewer :: viewer where
  "mounted_viewer =
     initial_viewer
       \<lparr>scroll_container := Some \<lparr>scrollTop = 300, scrollHeight = 400, clientHeight = 100\<rparr>,
        end_ref := True\<rparr>"

section \<open>Lemmas\<close>

text \<open>
  On a log whose entries are all event objects the filter returns, and what it computes
  is the rule of the specification: the backward loop finds the first matching block of
  the preceding messages, most recent first.
\<close>

lemmas sample_defs = tool_use_block_def tool_result_block_def with_content_def event_def block_def
  text_block_def

lemma find_filter_conv: "find P xs = (case filter P xs of [] \<Rightarrow> None | x # _ \<Rightarrow> Some x)"
  by (induction xs) auto

lemma find_tool_use_blocks:
  "find_tool_use m t = find (\<lambda>c. btype c = ''tool_use'' \<and> id_blk c = Some t) (blocks_of m)"
  by (auto simp: find_tool_use_def blocks_of_def split: option.splits content_field.splits)

lemma has_widget_self_rendering: "has_widget toolUse = self_rendering toolUse"
  by (auto simp: has_widget_def self_rendering_def toolsWithWidgets_def startsWith_def
      split: option.splits)

subsection \<open>The filter on a log of event objects\<close>

lemma scan_back_events:
  "i \<le> length ms \<Longrightarrow>
     scan_back (map Obj ms) i t =
       Inr (case matched_ToolUse (take i ms) t of
              None \<Rightarrow> False
            | Some toolUse \<Rightarrow> self_rendering toolUse)"
proof (induction i)
  case 0
  then show ?case by (simp add: matched_ToolUse_def)
next
  case (Suc i)
  then have i: "i < length ms"
    and IH: "scan_back (map Obj ms) i t =
       Inr (case matched_ToolUse (take i ms) t of
              None \<Rightarrow> False
            | Some toolUse \<Rightarrow> self_rendering toolUse)"
    by simp_all
  have tk: "take (Suc i) ms = take i ms @ [ms ! i]"
    using i by (simp add: take_Suc_conv_app_nth)
  show ?case
    using i
    by (simp add: tk IH find_tool_use_blocks find_filter_conv matched_ToolUse_def
        has_widget_self_rendering split: list.splits)
qed

lemma willBeSkipped_events:
  "index \<le> length ms \<Longrightarrow> willBeSkipped (map Obj ms) index c = Inr (excluded (take index ms) c)"
  by (simp add: willBeSkipped_def excluded_def scan_back_events split: option.splits)

lemma hasVisibleContent_events:
  "index \<le> length ms \<Longrightarrow>
     hasVisibleContent (map Obj ms) index cs =
       Inr (list_ex (\<lambda>c. btype c = ''text'' \<or>
              (btype c = ''tool_result'' \<and> \<not> excluded (take index ms) c)) cs)"
  by (induction cs) (simp_all add: willBeSkipped_events)

lemma keep_events:
  "index \<le> length ms \<Longrightarrow> keep (map Obj ms) index (Obj m) = Inr (visible (take index ms) m)"
  by (auto simp: keep_def visible_def hasVisibleContent_events
      split: option.splits content_field.splits)

lemma filter_loop_events:
  "i + length xs \<le> length ms \<Longrightarrow>
     filter_loop (map Obj ms) i (map Obj xs) =
       Inr (map Obj (map snd (filter (\<lambda>(index, m). visible (take index ms) m)
                                (zip [i ..< i + length xs] xs))))"
proof (induction xs arbitrary: i)
  case Nil
  then show ?case by simp
next
  case (Cons x xs)
  have i: "i \<le> length ms" and s: "Suc i + length xs \<le> length ms"
    using Cons.prems by simp_all
  have up: "[i ..< i + length (x # xs)] = i # [Suc i ..< Suc i + length xs]"
    using upt_conv_Cons [of i "Suc (i + length xs)"] by simp
  show ?case
    unfolding up using Cons.IH [OF s] by (simp add: keep_events [OF i])
qed

lemma displayableMessages_events:
  "displayableMessages (map Obj ms) = Inr (map Obj (projection ms))"
  using filter_loop_events [of 0 ms ms] by (simp add: displayableMessages_def projection_def)

subsection \<open>The visible projection\<close>

lemma projection_append:
  "projection (ms @ ns) =
     projection ms @
     map snd (filter (\<lambda>(index, m). visible (take index (ms @ ns)) m)
                (zip [length ms ..< length ms + length ns] ns))"
proof -
  have up: "[0 ..< length ms + length ns] = [0 ..< length ms] @ [length ms ..< length ms + length ns]"
    by (rule upt_add_eq_append) simp
  have old: "filter (\<lambda>(index, m). visible (take index (ms @ ns)) m) (zip [0 ..< length ms] ms) =
        filter (\<lambda>(index, m). visible (take index ms) m) (zip [0 ..< length ms] ms)"
  proof (rule filter_cong [OF refl])
    fix x assume x: "x \<in> set (zip [0 ..< length ms] ms)"
    obtain i m where xim: "x = (i, m)" by (cases x)
    from x xim have "i \<in> set [0 ..< length ms]" by (auto dest: set_zip_leftD)
    then have "i \<le> length ms" by simp
    then show "(case x of (index, m) \<Rightarrow> visible (take index (ms @ ns)) m) =
               (case x of (index, m) \<Rightarrow> visible (take index ms) m)"
      by (simp add: xim)
  qed
  have zp: "zip ([0 ..< length ms] @ [length ms ..< length ms + length ns]) (ms @ ns) =
        zip [0 ..< length ms] ms @ zip [length ms ..< length ms + length ns] ns"
    by (rule zip_append) simp
  show ?thesis
    by (simp only: projection_def length_append up zp filter_append map_append old)
qed

lemma projection_snoc:
  "projection (ms @ [m]) = projection ms @ (if visible ms m then [m] else [])"
  by (simp add: projection_append)

lemma projection_prefix: "prefix (projection ms) (projection (ms @ ns))"
  by (simp add: projection_append)

lemma projection_take_Suc:
  "index < length ms \<Longrightarrow>
     projection (take (Suc index) ms) =
       projection (take index ms) @
       (if visible (take index ms) (ms ! index) then [ms ! index] else [])"
  by (simp add: take_Suc_conv_app_nth projection_snoc)

lemma projection_member:
  assumes "index < length ms" and "visible (take index ms) (ms ! index)"
  shows "ms ! index \<in> set (projection ms)"
proof -
  have "(index, ms ! index) \<in> set (zip [0 ..< length ms] ms)"
    using assms(1) by (auto simp: in_set_zip intro!: exI [of _ index])
  then have "(index, ms ! index) \<in>
      set (filter (\<lambda>(index, m). visible (take index ms) m) (zip [0 ..< length ms] ms))"
    using assms(2) by simp
  then show ?thesis unfolding projection_def by force
qed

subsection \<open>The filter on any log\<close>

lemma scan_back_append: "i \<le> length vs \<Longrightarrow> scan_back (vs @ ws) i t = scan_back vs i t"
  by (induction i) (simp_all add: nth_append split: stream_value.splits option.splits)

lemma willBeSkipped_append:
  "i \<le> length vs \<Longrightarrow> willBeSkipped (vs @ ws) i c = willBeSkipped vs i c"
  by (simp add: willBeSkipped_def scan_back_append split: option.splits)

lemma hasVisibleContent_append:
  "i \<le> length vs \<Longrightarrow> hasVisibleContent (vs @ ws) i cs = hasVisibleContent vs i cs"
  by (induction cs) (simp_all add: willBeSkipped_append split: sum.splits)

lemma keep_append: "i \<le> length vs \<Longrightarrow> keep (vs @ ws) i v = keep vs i v"
  by (simp add: keep_def hasVisibleContent_append
      split: stream_value.splits option.splits content_field.splits)

lemma filter_loop_append:
  "filter_loop all i (xs @ ys) =
     (case filter_loop all i xs of
        Inl e \<Rightarrow> Inl e
      | Inr out \<Rightarrow> map_sum id ((@) out) (filter_loop all (i + length xs) ys))"
proof (induction xs arbitrary: i)
  case Nil
  show ?case by (cases "filter_loop all i ys") simp_all
next
  case (Cons x xs)
  show ?case
    by (cases "keep all i x"; cases "filter_loop all (Suc i) xs";
        cases "filter_loop all (Suc (i + length xs)) ys")
       (simp_all add: Cons.IH)
qed

lemma filter_loop_prefix:
  "i + length xs \<le> length vs \<Longrightarrow> filter_loop (vs @ ws) i xs = filter_loop vs i xs"
proof (induction xs arbitrary: i)
  case Nil
  show ?case by simp
next
  case (Cons x xs)
  then have i: "i \<le> length vs" and s: "Suc i + length xs \<le> length vs" by simp_all
  show ?case by (simp add: keep_append [OF i] Cons.IH [OF s] split: sum.splits)
qed

lemma displayableMessages_append:
  "displayableMessages (vs @ ws) =
     (case displayableMessages vs of
        Inl e \<Rightarrow> Inl e
      | Inr out \<Rightarrow> map_sum id ((@) out) (filter_loop (vs @ ws) (length vs) ws))"
  using filter_loop_append [of "vs @ ws" 0 vs ws] filter_loop_prefix [of 0 vs vs ws]
  by (simp add: displayableMessages_def split: sum.splits)





subsection \<open>Ingestion and scrolling\<close>

lemma parse_loop_eq:
  "parse_loop parse ls acc errs =
     (acc @ List.map_filter parse ls,
      errs @ map ParseFailed (filter (\<lambda>l. parse l = None) ls))"
  by (induction ls arbitrary: acc errs) (auto split: option.splits)

lemma map_filter_append: "List.map_filter f (xs @ ys) = List.map_filter f xs @ List.map_filter f ys"
  by (simp add: List.map_filter_def)

lemma agent_output_listener [simp]:
  "output_listener (agent_output parse l s) = output_listener s"
  by (simp add: agent_output_def Let_def split: option.splits)

lemma agent_output_fold:
  "output_listener s \<Longrightarrow>
     rawJsonlOutput (fold (agent_output parse) ls s) = rawJsonlOutput s @ ls
     \<and> messages (fold (agent_output parse) ls s) = messages s @ List.map_filter parse ls
     \<and> console (fold (agent_output parse) ls s) =
         console s @ map ParseFailed (filter (\<lambda>l. parse l = None) ls)"
proof (induction ls arbitrary: s)
  case Nil
  then show ?case by simp
next
  case (Cons l ls)
  have "output_listener (agent_output parse l s)" using Cons.prems by simp
  from Cons.IH [OF this] Cons.prems show ?case
    by (auto simp: agent_output_def Let_def split: option.splits)
qed

lemma split_nl_no_newline: "CHR 0x0A \<notin> set s \<Longrightarrow> split_nl s = [s]"
  by (induction s) auto

lemma loadOutput_resolved_lists:
  assumes "run_id run = Some rid"
  shows "rawJsonlOutput (loadOutput_resolved parse now run rawOutput v) = jsonl_lines rawOutput"
    and "messages (loadOutput_resolved parse now run rawOutput v) =
           List.map_filter parse (jsonl_lines rawOutput)"
    and "console (loadOutput_resolved parse now run rawOutput v) =
           console v @ map ParseFailed (filter (\<lambda>l. parse l = None) (jsonl_lines rawOutput))"
    and "output_listener (loadOutput_resolved parse now run rawOutput v) =
           (if run_status run = ''running'' then False else output_listener v)"
  using assms
  by (simp_all add: loadOutput_resolved_def parse_loop_eq setCachedOutput_def
      setupLiveEventListeners_def Let_def)



lemma item_appended_pinned:
  assumes "hasUserScrolled v"
  shows "hasUserScrolled (item_appended m h v)"
    and "map_option scrollTop (scroll_container (item_appended m h v)) =
         map_option scrollTop (scroll_container v)"
  using assms
  by (simp_all add: item_appended_def autoScroll_effect_def scrollToBottom_def layout_def
      option.map_comp comp_def cong: option.map_cong)

lemma appends_pinned:
  "hasUserScrolled v \<Longrightarrow>
     hasUserScrolled (fold (\<lambda>(m, h). item_appended m h) items v)
     \<and> map_option scrollTop (scroll_container (fold (\<lambda>(m, h). item_appended m h) items v)) =
         map_option scrollTop (scroll_container v)"
proof (induction items arbitrary: v)
  case Nil
  then show ?case by simp
next
  case (Cons a items)
  obtain m h where a: "a = (m, h)" by (cases a)
  have p: "hasUserScrolled (item_appended m h v)" using Cons.prems by (rule item_appended_pinned)
  show ?case
    using Cons.IH [OF p] item_appended_pinned(2) [OF Cons.prems, of m h] by (simp add: a)
qed

text \<open>
  A line whose value is \<^verbatim>\<open>null\<close> parses, so nothing is reported; the value is appended
  to the message list, and the filter then fails on it.
\<close>

lemma displayableMessages_null_last: "displayableMessages (vs @ [Null]) = Inl TypeError"
proof (cases "displayableMessages vs")
  case (Inl e)
  then show ?thesis by (cases e) (simp add: displayableMessages_append)
next
  case (Inr out)
  then show ?thesis by (simp add: displayableMessages_append keep_def)
qed

lemma null_line_stored_unreported:
  assumes "output_listener s" and "parse line = Some Null"
  shows "messages (agent_output parse line s) = messages s @ [Null]"
    and "console (agent_output parse line s) = console s"
    and "displayableMessages (messages (agent_output parse line s)) = Inl TypeError"
  using assms by (simp_all add: agent_output_def displayableMessages_null_last)

subsection \<open>Evaluation on the sample inputs\<close>

lemmas filter_defs = displayableMessages_def keep_def truthy_def willBeSkipped_def
  find_tool_use_def has_widget_def toolsWithWidgets_def toLowerCase_char_def startsWith_def

lemmas rule_defs = projection_def visible_def excluded_def matched_ToolUse_def blocks_of_def
  self_rendering_def truthy_def toLowerCase_char_def

lemma upt_0_2: "[0 ..< 2] = [0, Suc 0]"
  by (simp add: upt_rec)


lemma projection_paired:
  "projection (paired_log n) =
     (if self_rendering (tool_use_block ''t1'' n)
      then [with_content ''assistant'' [tool_use_block ''t1'' n]]
      else paired_log n)"
  by (simp add: projection_def visible_def excluded_def matched_ToolUse_def blocks_of_def
      truthy_def paired_log_def sample_defs upt_0_2)

subsection \<open>Visible user messages\<close>

lemma visible_user_block:
  assumes "mtype m = ''user''" and "\<not> isMeta m" and "message m = Some msg"
    and "content msg = ArrContent cs" and "c \<in> set cs" and "btype c = ''tool_result''"
    and "\<not> excluded preceding c"
  shows "visible preceding m"
  using assms by (auto simp: visible_def list_ex_iff)

lemma displayableMessages_take_Suc:
  "index < length ms \<Longrightarrow>
     displayableMessages (map Obj (take (Suc index) ms)) =
       Inr (map Obj (projection (take index ms) @
              (if visible (take index ms) (ms ! index) then [ms ! index] else [])))"
  by (simp only: displayableMessages_events projection_take_Suc)

lemma displayed_when_visible:
  assumes "index < length ms" and "visible (take index ms) (ms ! index)"
  shows "\<exists>shown. displayableMessages (map Obj ms) = Inr shown \<and> Obj (ms ! index) \<in> set shown"
    and "\<exists>shown. displayableMessages (map Obj (take index ms)) = Inr shown
           \<and> displayableMessages (map Obj (take (Suc index) ms)) = Inr (shown @ [Obj (ms ! index)])"
proof -
  have "Obj (ms ! index) \<in> set (map Obj (projection ms))"
    using projection_member [OF assms] by simp
  then show "\<exists>shown. displayableMessages (map Obj ms) = Inr shown \<and> Obj (ms ! index) \<in> set shown"
    using displayableMessages_events [of ms] by blast
  have "displayableMessages (map Obj (take (Suc index) ms)) =
      Inr (map Obj (projection (take index ms)) @ [Obj (ms ! index)])"
    using displayableMessages_take_Suc [OF assms(1)] assms(2) by simp
  then show "\<exists>shown. displayableMessages (map Obj (take index ms)) = Inr shown
           \<and> displayableMessages (map Obj (take (Suc index) ms)) = Inr (shown @ [Obj (ms ! index)])"
    using displayableMessages_events [of "take index ms"] by blast
qed

section \<open>The claims\<close>

subsection \<open>C1: snapshot and live lines\<close>




subsection \<open>C2: when the cache is used without a fetch\<close>

text \<open>
  Claim C2 as stated fails. \<^verbatim>\<open>loadOutput\<close> tests the status of the run it was given, not
  the status the entry recorded: a fresh entry captured while the run was running is used
  without a fetch once the run is completed, and a fresh entry that recorded
  \<^verbatim>\<open>completed\<close> does not stop the fetch for a run that is running.
\<close>

theorem C2_entry_status_not_consulted:
  "getCachedOutput (cached_viewer 7000 ''running'') 7 = Some (sample_entry 7000 ''running'')
   \<and> status (sample_entry 7000 ''running'') = ''running''
   \<and> 10000 - lastUpdated (sample_entry 7000 ''running'') < 5000
   \<and> snd (loadOutput_start False 10000 (sample_run ''completed'')
          (cached_viewer 7000 ''running'')) = False
   \<and> getCachedOutput (cached_viewer 7000 ''completed'') 7 = Some (sample_entry 7000 ''completed'')
   \<and> status (sample_entry 7000 ''completed'') = ''completed''
   \<and> lastUpdated (sample_entry 7000 ''completed'') = 10000 - 3000
   \<and> snd (loadOutput_start False 10000 (sample_run ''running'')
          (cached_viewer 7000 ''completed'')) = True"
  by (simp add: loadOutput_start_def getCachedOutput_def cached_viewer_def setCachedOutput_def
      sample_run_def sample_entry_def initial_viewer_def Let_def)

text \<open>
  Claim C2, amended. On opening a run that has a cached entry, the lists are set from the
  entry, and no fetch is issued if and only if \<open>now - lastUpdated < 5000\<close> and the status
  of the run handed to the viewer is not \<^verbatim>\<open>running\<close>; in particular an entry with
  \<open>lastUpdated = now - 3000\<close> is used without a fetch for a run whose status is
  \<^verbatim>\<open>completed\<close>.
\<close>

theorem C2_cache_used_iff_fresh_and_run_not_running:
  assumes "run_id run = Some rid" and "rid \<noteq> 0" and "getCachedOutput v rid = Some cached"
  shows "snd (loadOutput_start False now run v) =
           (\<not> (now - lastUpdated cached < 5000 \<and> run_status run \<noteq> ''running''))
    \<and> messages (fst (loadOutput_start False now run v)) = cached_messages cached
    \<and> rawJsonlOutput (fst (loadOutput_start False now run v)) = jsonl_lines (output_text cached)
    \<and> (lastUpdated cached = now - 3000 \<and> run_status run = ''completed'' \<longrightarrow>
          \<not> snd (loadOutput_start False now run v))"
  using assms by (simp add: loadOutput_start_def Let_def)

theorem C2_witness:
  "\<not> snd (loadOutput_start False 10000 (sample_run ''completed'') (cached_viewer 7000 ''completed''))
   \<and> messages (fst (loadOutput_start False 10000 (sample_run ''completed'')
        (cached_viewer 7000 ''completed''))) = [Obj (event ''system'')]"
proof -
  have r: "run_id (sample_run ''completed'') = Some 7" "(7::nat) \<noteq> 0"
    "getCachedOutput (cached_viewer 7000 ''completed'') 7 = Some (sample_entry 7000 ''completed'')"
    by (simp_all add: sample_run_def getCachedOutput_def cached_viewer_def setCachedOutput_def)
  show ?thesis
    using C2_cache_used_iff_fresh_and_run_not_running [OF r, of 10000]
    by (simp add: sample_entry_def sample_run_def)
qed

subsection \<open>C3: the classification of a tool result\<close>

text \<open>
  Claim C3 as stated fails at an empty id. The assistant message holds a \<open>ToolUse\<close> block
  named \<^verbatim>\<open>bash\<close> whose id is the empty string and the tool result's \<open>tool_use_id\<close> is the
  empty string as well: the ids are equal and the matched tool is self-rendering. The
  filter scans only when \<^verbatim>\<open>content.tool_use_id\<close> is truthy, so the result is not skipped
  and the user message is displayed.
\<close>

theorem C3_empty_id_not_classified:
  "matched_ToolUse (take (Suc 0) (empty_id_log ''bash'')) [] = Some (tool_use_block [] ''bash'')
   \<and> self_rendering (tool_use_block [] ''bash'')
   \<and> tool_use_id (tool_result_block [] ''ok'') = Some []
   \<and> willBeSkipped (map Obj (empty_id_log ''bash'')) (Suc 0) (tool_result_block [] ''ok'') =
       Inr False
   \<and> displayableMessages (map Obj (empty_id_log ''bash'')) = Inr (map Obj (empty_id_log ''bash''))"
  by (simp add: empty_id_log_def matched_ToolUse_def blocks_of_def self_rendering_def
      filter_defs sample_defs)

text \<open>
  Claim C3, amended. In a log of event objects, for every message \<open>m\<close>, the messages
  \<open>before\<close> it and every block \<open>c\<close>: the backward loop of the filter computes \<open>excluded\<close>,
  the classification of the specification restricted to a \<open>tool_use_id\<close> that is present
  and not empty. Among the messages before, scanned most recent first, the first
  \<open>ToolUse\<close> block of an assistant message whose id is the \<open>tool_use_id\<close> decides: the
  result is excluded exactly when that block's name, lower-cased, is one of the ten names
  or the name as written starts with \<^verbatim>\<open>mcp__\<close>; it is included otherwise, also when
  nothing matches and when the \<open>tool_use_id\<close> is absent or empty. The filter keeps \<open>m\<close>
  exactly when \<open>m\<close> is \<open>visible\<close>: a user message that is not flagged meta and has a list of
  blocks is visible exactly when one of them is a text block or an included tool result.
  The displayable messages are the log filtered by that rule, each message judged with
  the messages before it, so what follows a message does not change whether it is
  displayed. In the log of a \<open>ToolUse\<close> block with id \<^verbatim>\<open>t1\<close> followed by its result, the
  result is skipped and the assistant message alone is displayed when the tool is named
  \<^verbatim>\<open>Read\<close>; the result is not skipped and both messages are displayed when it is named
  \<^verbatim>\<open>UnknownTool\<close>.
\<close>

theorem C3_self_rendering_classification:
  "willBeSkipped (map Obj (before @ m # after)) (length before) c = Inr (excluded before c)
   \<and> keep (map Obj (before @ m # after)) (length before) (Obj m) = Inr (visible before m)
   \<and> displayableMessages (map Obj (before @ m # after)) =
       Inr (map Obj (projection (before @ m # after)))
   \<and> projection (before @ [m]) = projection before @ (if visible before m then [m] else [])
   \<and> prefix (projection (before @ [m])) (projection (before @ m # after))
   \<and> willBeSkipped (map Obj (paired_log ''Read'')) (Suc 0) (tool_result_block ''t1'' ''ok'') =
       Inr True
   \<and> displayableMessages (map Obj (paired_log ''Read'')) =
       Inr [Obj (with_content ''assistant'' [tool_use_block ''t1'' ''Read''])]
   \<and> willBeSkipped (map Obj (paired_log ''UnknownTool'')) (Suc 0)
         (tool_result_block ''t1'' ''ok'') = Inr False
   \<and> displayableMessages (map Obj (paired_log ''UnknownTool'')) =
       Inr (map Obj (paired_log ''UnknownTool''))"
proof -
  have l: "length before \<le> length (before @ m # after)"
    by simp
  have 1: "willBeSkipped (map Obj (before @ m # after)) (length before) c =
      Inr (excluded before c)"
    using willBeSkipped_events [OF l, of c] by simp
  have 2: "keep (map Obj (before @ m # after)) (length before) (Obj m) = Inr (visible before m)"
    using keep_events [OF l, of m] by simp
  have 3: "displayableMessages (map Obj (before @ m # after)) =
      Inr (map Obj (projection (before @ m # after)))"
    by (rule displayableMessages_events)
  have 4: "projection (before @ [m]) = projection before @ (if visible before m then [m] else [])"
    by (rule projection_snoc)
  have 5: "prefix (projection (before @ [m])) (projection (before @ m # after))"
    using projection_prefix [of "before @ [m]" after] by simp
  have 6: "willBeSkipped (map Obj (paired_log ''Read'')) (Suc 0)
      (tool_result_block ''t1'' ''ok'') = Inr True"
    and 7: "displayableMessages (map Obj (paired_log ''Read'')) =
      Inr [Obj (with_content ''assistant'' [tool_use_block ''t1'' ''Read''])]"
    and 8: "willBeSkipped (map Obj (paired_log ''UnknownTool'')) (Suc 0)
      (tool_result_block ''t1'' ''ok'') = Inr False"
    and 9: "displayableMessages (map Obj (paired_log ''UnknownTool'')) =
      Inr (map Obj (paired_log ''UnknownTool''))"
    by (simp_all add: paired_log_def filter_defs sample_defs)
  show ?thesis
    using 1 2 3 4 5 6 7 8 9 by blast
qed

theorem C3_witness:
  "willBeSkipped (map Obj (paired_log ''mcp__fs'')) (Suc 0) (tool_result_block ''t1'' ''ok'') =
     Inr True
   \<and> displayableMessages (map Obj (paired_log ''mcp__fs'')) =
     Inr [Obj (with_content ''assistant'' [tool_use_block ''t1'' ''mcp__fs''])]
   \<and> willBeSkipped (map Obj (paired_log ''Grep'')) (Suc 0) (tool_result_block ''t1'' ''ok'') =
     Inr True
   \<and> displayableMessages (map Obj (paired_log ''Grep'')) =
     Inr [Obj (with_content ''assistant'' [tool_use_block ''t1'' ''Grep''])]"
proof -
  have inst:
    "willBeSkipped (map Obj (paired_log n)) (Suc 0) (tool_result_block ''t1'' ''ok'') =
       Inr (excluded [with_content ''assistant'' [tool_use_block ''t1'' n]]
              (tool_result_block ''t1'' ''ok''))
     \<and> displayableMessages (map Obj (paired_log n)) = Inr (map Obj (projection (paired_log n)))"
    for n
    using C3_self_rendering_classification
      [where before = "[with_content ''assistant'' [tool_use_block ''t1'' n]]"
         and m = "with_content ''user'' [tool_result_block ''t1'' ''ok'']" and after = "[]"
         and c = "tool_result_block ''t1'' ''ok''"]
    by (simp add: paired_log_def)
  have e: "excluded [with_content ''assistant'' [tool_use_block ''t1'' n]]
      (tool_result_block ''t1'' ''ok'') = self_rendering (tool_use_block ''t1'' n)" for n
    by (simp add: excluded_def matched_ToolUse_def blocks_of_def sample_defs)
  have s: "self_rendering (tool_use_block ''t1'' ''mcp__fs'')"
    "self_rendering (tool_use_block ''t1'' ''Grep'')"
    by (simp_all add: self_rendering_def tool_use_block_def block_def toLowerCase_char_def)
  show ?thesis
    using inst [of "''mcp__fs''"] inst [of "''Grep''"]
    by (simp add: e s projection_paired)
qed

subsection \<open>C4: the two-message scenario\<close>

text \<open>
  Claim C4. The filter applied to the assistant message with the single \<open>ToolUse\<close> block
  (id \<^verbatim>\<open>t1\<close>, name \<^verbatim>\<open>bash\<close>) followed by the user message with the single \<open>ToolResult\<close>
  block (\<open>tool_use_id\<close> \<^verbatim>\<open>t1\<close>, content \<^verbatim>\<open>ok\<close>) returns the assistant message alone.
\<close>

theorem C4_two_message_scenario:
  "displayableMessages
     [Obj (with_content ''assistant'' [tool_use_block ''t1'' ''bash'']),
      Obj (with_content ''user'' [tool_result_block ''t1'' ''ok''])]
   = Inr [Obj (with_content ''assistant'' [tool_use_block ''t1'' ''bash''])]"
  by (simp add: filter_defs sample_defs)

theorem C4_witness:
  "map_sum id length (displayableMessages
     [Obj (with_content ''assistant'' [tool_use_block ''t1'' ''bash'']),
      Obj (with_content ''user'' [tool_result_block ''t1'' ''ok''])]) = Inr 1"
  using C4_two_message_scenario by simp

subsection \<open>C5: tool results without a tool use\<close>

text \<open>
  Claim C5. The rules of the filter apply in order and a user message flagged meta is
  dropped before its content is looked at; the claim is about the messages that reach the
  content rule. In a log of event objects, for a user message that is not flagged meta, a
  tool-result block whose \<open>tool_use_id\<close> (if it has one) matches no \<open>ToolUse\<close> block of a
  preceding assistant message is not skipped: the filter keeps the message, it is among
  the displayable messages of the log, and it is the last displayable message of the log
  up to it.
\<close>

theorem C5_fail_open:
  assumes "index < length ms"
    and "mtype (ms ! index) = ''user''" and "\<not> isMeta (ms ! index)"
    and "message (ms ! index) = Some msg" and "content msg = ArrContent cs"
    and "c \<in> set cs" and "btype c = ''tool_result''"
    and "\<forall>t. tool_use_id c = Some t \<longrightarrow> matched_ToolUse (take index ms) t = None"
  shows "willBeSkipped (map Obj ms) index c = Inr False
    \<and> keep (map Obj ms) index (Obj (ms ! index)) = Inr True
    \<and> (\<exists>shown. displayableMessages (map Obj ms) = Inr shown \<and> Obj (ms ! index) \<in> set shown)
    \<and> (\<exists>shown. displayableMessages (map Obj (take index ms)) = Inr shown
          \<and> displayableMessages (map Obj (take (Suc index) ms)) =
              Inr (shown @ [Obj (ms ! index)]))"
proof -
  have i: "index \<le> length ms"
    using assms(1) by simp
  have x: "\<not> excluded (take index ms) c"
    using assms(8) by (auto simp: excluded_def split: option.splits)
  then have v: "visible (take index ms) (ms ! index)"
    using assms(2-7) by (intro visible_user_block [where c = c and cs = cs and msg = msg]) auto
  have 1: "willBeSkipped (map Obj ms) index c = Inr False"
    using willBeSkipped_events [OF i, of c] x by simp
  have 2: "keep (map Obj ms) index (Obj (ms ! index)) = Inr True"
    using i v by (simp add: keep_events)
  show ?thesis
    using 1 2 displayed_when_visible [OF assms(1) v] by blast
qed

theorem C5_witness:
  "willBeSkipped (map Obj orphan_log) 0 (tool_result_block ''t9'' ''ok'') = Inr False
   \<and> keep (map Obj orphan_log) 0 (Obj (orphan_log ! 0)) = Inr True
   \<and> displayableMessages (map Obj orphan_log) = Inr (map Obj orphan_log)"
proof -
  have h: "0 < length orphan_log" "mtype (orphan_log ! 0) = ''user''" "\<not> isMeta (orphan_log ! 0)"
    "message (orphan_log ! 0) =
       Some \<lparr>content = ArrContent [tool_result_block ''t9'' ''ok''], usage = None\<rparr>"
    "content \<lparr>content = ArrContent [tool_result_block ''t9'' ''ok''], usage = None\<rparr> =
       ArrContent [tool_result_block ''t9'' ''ok'']"
    "tool_result_block ''t9'' ''ok'' \<in> set [tool_result_block ''t9'' ''ok'']"
    "btype (tool_result_block ''t9'' ''ok'') = ''tool_result''"
    "\<forall>t. tool_use_id (tool_result_block ''t9'' ''ok'') = Some t \<longrightarrow>
          matched_ToolUse (take 0 orphan_log) t = None"
    by (simp_all add: orphan_log_def sample_defs matched_ToolUse_def)
  have e: "take (Suc 0) orphan_log = orphan_log" "displayableMessages [] = Inr []"
    "[Obj (orphan_log ! 0)] = map Obj orphan_log"
    by (simp_all add: orphan_log_def displayableMessages_def)
  from C5_fail_open [OF h]
  have "willBeSkipped (map Obj orphan_log) 0 (tool_result_block ''t9'' ''ok'') = Inr False"
    and "keep (map Obj orphan_log) 0 (Obj (orphan_log ! 0)) = Inr True"
    and "\<exists>shown. displayableMessages (map Obj (take 0 orphan_log)) = Inr shown
          \<and> displayableMessages (map Obj (take (Suc 0) orphan_log)) =
              Inr (shown @ [Obj (orphan_log ! 0)])"
    by blast+
  then show ?thesis
    by (auto simp: e)
qed

subsection \<open>C6: lines that do not parse\<close>

text \<open>
  Claim C6 as stated fails. The component keeps no counter, and the line is not discarded
  from the raw line list: a malformed live line changes the state by one more raw line
  and one console report, and the JSONL export then contains it; a malformed line of a
  snapshot stays in the raw line list as well.
\<close>

theorem C6_malformed_line_kept_in_raw_list:
  "agent_output sample_parse ''not json'' (output_listener_registered initial_viewer) =
     (output_listener_registered initial_viewer)
       \<lparr>rawJsonlOutput := [''not json''], console := [ParseFailed ''not json'']\<rparr>
   \<and> handleCopyAsJsonl
        (agent_output sample_parse ''not json'' (output_listener_registered initial_viewer)) =
      ''not json''
   \<and> rawJsonlOutput
        (loadOutput_resolved sample_parse 1000 (sample_run ''completed'') ''not json''
           initial_viewer) = [''not json'']
   \<and> messages
        (loadOutput_resolved sample_parse 1000 (sample_run ''completed'') ''not json''
           initial_viewer) = []"
proof -
  have j: "jsonl_lines ''not json'' = [''not json'']"
    by (simp add: jsonl_lines_def split_nl_no_newline trim_def is_space_def)
  have r: "run_id (sample_run ''completed'') = Some 7"
    by (simp add: sample_run_def)
  have p: "sample_parse ''not json'' = None"
    by (simp add: sample_parse_def)
  show ?thesis
    by (simp add: loadOutput_resolved_lists [OF r] j p agent_output_def
        output_listener_registered_def initial_viewer_def handleCopyAsJsonl_def)
qed

text \<open>
  Claim C6, amended, for the lines on which \<^verbatim>\<open>JSON.parse\<close> throws. Such a line is
  reported on the console, once, and adds no entry to the message list, while the raw
  line list keeps it. The failure is a value the loop and the handler consume: both
  return a state for every input, and the messages they build from the other lines,
  before and after it, are the ones they build without that line.
\<close>

theorem C6_malformed_line_skipped:
  assumes "parse line = None" and "output_listener s"
  shows "fst (parse_loop parse (before @ line # rest) acc errs) =
           fst (parse_loop parse (before @ rest) acc errs)
    \<and> length (snd (parse_loop parse (before @ line # rest) acc errs)) =
           Suc (length (snd (parse_loop parse (before @ rest) acc errs)))
    \<and> messages (agent_output parse line s) = messages s
    \<and> console (agent_output parse line s) = console s @ [ParseFailed line]
    \<and> rawJsonlOutput (agent_output parse line s) = rawJsonlOutput s @ [line]
    \<and> messages (fold (agent_output parse) later (agent_output parse line s)) =
           messages (fold (agent_output parse) later s)"
proof -
  have 1: "fst (parse_loop parse (before @ line # rest) acc errs) =
           fst (parse_loop parse (before @ rest) acc errs)"
    using assms(1) by (simp add: parse_loop_eq map_filter_append)
  have 2: "length (snd (parse_loop parse (before @ line # rest) acc errs)) =
           Suc (length (snd (parse_loop parse (before @ rest) acc errs)))"
    using assms(1) by (simp add: parse_loop_eq)
  have 3: "messages (agent_output parse line s) = messages s"
    and 4: "console (agent_output parse line s) = console s @ [ParseFailed line]"
    and 5: "rawJsonlOutput (agent_output parse line s) = rawJsonlOutput s @ [line]"
    using assms by (simp_all add: agent_output_def)
  have l: "output_listener (agent_output parse line s)"
    using assms(2) by simp
  have 6: "messages (fold (agent_output parse) later (agent_output parse line s)) =
           messages (fold (agent_output parse) later s)"
    using agent_output_fold [OF l, of parse later] agent_output_fold [OF assms(2), of parse later] 3
    by simp
  show ?thesis using 1 2 3 4 5 6 by simp
qed

theorem C6_witness:
  \<open>messages (agent_output sample_parse ''not json'' (output_listener_registered initial_viewer)) = []
   \<and> console (agent_output sample_parse ''not json'' (output_listener_registered initial_viewer)) =
       [ParseFailed ''not json'']
   \<and> fst (parse_loop sample_parse [''{"type":"system"}'', ''not json'', ''{"type":"result"}''] [] []) =
       [Obj (event ''system''), Obj (event ''result'')]\<close>
proof -
  have p: "sample_parse ''not json'' = None" by (simp add: sample_parse_def)
  have l: "output_listener (output_listener_registered initial_viewer)"
    by (simp add: output_listener_registered_def)
  have e: \<open>fst (parse_loop sample_parse [''{"type":"system"}'', ''{"type":"result"}''] [] []) =
       [Obj (event ''system''), Obj (event ''result'')]\<close>
    by (simp add: sample_parse_def)
  note c6 = C6_malformed_line_skipped
    [where parse = sample_parse and line = "''not json''"
       and s = "output_listener_registered initial_viewer"
       and before = \<open>[''{"type":"system"}'']\<close> and rest = \<open>[''{"type":"result"}'']\<close>
       and acc = "[]" and errs = "[]" and later = "[]", OF p l]
  show ?thesis
    using c6 e by (simp add: output_listener_registered_def initial_viewer_def)
qed

subsection \<open>C7: following and pinned\<close>

text \<open>
  Claim C7, for \<^verbatim>\<open>AgentRunOutputViewer\<close>, whose threshold is 50. \<open>Following\<close> is
  \<open>hasUserScrolled = False\<close>. In a mounted viewer that follows, an append leaves the
  container at the bottom of its new content. A scroll by the user that leaves more than
  50 below the viewport sets the flag, and then no number of appends moves the scroll
  offset; a scroll that leaves 50 or less clears the flag.
\<close>

theorem C7_follow_or_pinned:
  assumes "scroll_container v = Some c" and "end_ref v"
  shows "(\<not> hasUserScrolled v \<longrightarrow>
            scroll_container (item_appended m h v) =
              Some (c\<lparr>scrollHeight := h, scrollTop := h - clientHeight c\<rparr>)
            \<and> distanceFromBottom (c\<lparr>scrollHeight := h, scrollTop := h - clientHeight c\<rparr>) = 0)
    \<and> (distanceFromBottom (c\<lparr>scrollTop := pos\<rparr>) > 50 \<longrightarrow>
            hasUserScrolled (user_scroll pos v)
            \<and> hasUserScrolled (fold (\<lambda>(m, h). item_appended m h) items (user_scroll pos v))
            \<and> map_option scrollTop
                 (scroll_container (fold (\<lambda>(m, h). item_appended m h) items (user_scroll pos v))) =
               Some pos)
    \<and> (distanceFromBottom (c\<lparr>scrollTop := pos\<rparr>) \<le> 50 \<longrightarrow> \<not> hasUserScrolled (user_scroll pos v))"
proof -
  have a: "scroll_container (item_appended m h v) =
              Some (c\<lparr>scrollHeight := h, scrollTop := h - clientHeight c\<rparr>)"
    if "\<not> hasUserScrolled v"
    using that assms
    by (simp add: item_appended_def autoScroll_effect_def scrollToBottom_def layout_def
        scrollIntoView_def)
  have b: "distanceFromBottom (c\<lparr>scrollHeight := h, scrollTop := h - clientHeight c\<rparr>) = 0"
    by (simp add: distanceFromBottom_def)
  have u: "hasUserScrolled (user_scroll pos v) = (distanceFromBottom (c\<lparr>scrollTop := pos\<rparr>) > 50)"
    and s: "map_option scrollTop (scroll_container (user_scroll pos v)) = Some pos"
    using assms(1) by (simp_all add: user_scroll_def handleScroll_def)
  have p: "hasUserScrolled (fold (\<lambda>(m, h). item_appended m h) items (user_scroll pos v))
     \<and> map_option scrollTop
          (scroll_container (fold (\<lambda>(m, h). item_appended m h) items (user_scroll pos v))) =
        Some pos"
    if "distanceFromBottom (c\<lparr>scrollTop := pos\<rparr>) > 50"
    using appends_pinned [of "user_scroll pos v" items] u s that by simp
  show ?thesis using a b u p by auto
qed

theorem C7_witness:
  "scroll_container (item_appended (Obj (event ''result'')) 450 mounted_viewer) =
     Some \<lparr>scrollTop = 350, scrollHeight = 450, clientHeight = 100\<rparr>
   \<and> hasUserScrolled (user_scroll 100 mounted_viewer)
   \<and> map_option scrollTop
        (scroll_container (fold (\<lambda>(m, h). item_appended m h) [(Obj (event ''result''), 450)]
           (user_scroll 100 mounted_viewer))) = Some 100
   \<and> \<not> hasUserScrolled (user_scroll 250 mounted_viewer)"
proof -
  have c: "scroll_container mounted_viewer = Some \<lparr>scrollTop = 300, scrollHeight = 400, clientHeight = 100\<rparr>"
    and e: "end_ref mounted_viewer" and f: "\<not> hasUserScrolled mounted_viewer"
    by (simp_all add: mounted_viewer_def initial_viewer_def)
  note w1 = C7_follow_or_pinned [OF c e, where m = "Obj (event ''result'')" and h = 450 and pos = 100
      and items = "[(Obj (event ''result''), 450)]"]
  note w2 = C7_follow_or_pinned [OF c e, where m = "Obj (event ''result'')" and h = 450 and pos = 250
      and items = "[]"]
  have 1: "scroll_container (item_appended (Obj (event ''result'')) 450 mounted_viewer) =
     Some \<lparr>scrollTop = 350, scrollHeight = 450, clientHeight = 100\<rparr>"
    using w1 f by simp
  have d1: "distanceFromBottom (\<lparr>scrollTop = 300, scrollHeight = 400, clientHeight = 100\<rparr>\<lparr>scrollTop := 100\<rparr>) > 50"
    and d2: "distanceFromBottom (\<lparr>scrollTop = 300, scrollHeight = 400, clientHeight = 100\<rparr>\<lparr>scrollTop := 250\<rparr>) \<le> 50"
    by (simp_all add: distanceFromBottom_def)
  have 2: "hasUserScrolled (user_scroll 100 mounted_viewer)
     \<and> map_option scrollTop
        (scroll_container (fold (\<lambda>(m, h). item_appended m h) [(Obj (event ''result''), 450)]
           (user_scroll 100 mounted_viewer))) = Some 100"
    using w1 d1 by blast
  have 3: "\<not> hasUserScrolled (user_scroll 250 mounted_viewer)"
    using w2 d2 by blast
  show ?thesis using 1 2 3 by blast
qed

subsection \<open>C8: what a row is keyed by\<close>

text \<open>
  Claim C8 as stated fails. Messages carry no sequence index and the virtualizers are
  given no key function: their options hold the number of displayable messages, the
  scroll element, the estimate and the overscan. The row with index 0 shows the second
  message of the first log and the first message of the second log, and the options are
  the same for both logs, so nothing the virtualizer is given tells the two sequence
  positions apart.
\<close>

theorem C8_no_key_function:
  "displayableMessages (map Obj meta_first_log) = Inr [Obj (meta_first_log ! 1)]
   \<and> displayableMessages (map Obj hello_log) = Inr [Obj (hello_log ! 0)]
   \<and> virtual_row [Obj (meta_first_log ! 1)] 0 = Obj (meta_first_log ! 1)
   \<and> virtual_row [Obj (hello_log ! 0)] 0 = Obj (hello_log ! 0)
   \<and> getItemKey (rowVirtualizer [Obj (meta_first_log ! 1)]) = None
   \<and> getItemKey (fullscreenRowVirtualizer [Obj (meta_first_log ! 1)]) = None
   \<and> rowVirtualizer [Obj (meta_first_log ! 1)] = rowVirtualizer [Obj (hello_log ! 0)]
   \<and> fullscreenRowVirtualizer [Obj (meta_first_log ! 1)] =
       fullscreenRowVirtualizer [Obj (hello_log ! 0)]"
  by (simp add: virtual_row_def rowVirtualizer_def fullscreenRowVirtualizer_def meta_first_log_def
      hello_log_def filter_defs sample_defs)

text \<open>
  Claim C8, amended. The row virtualizer is given \<open>count\<close>, the number of displayable
  messages, the scroll element, the estimate 150 for every row, the overscan 5 and no key
  function, so its options are the same for any two lists of one length; the fullscreen
  virtualizer differs in the scroll element only. The row with index \<open>i\<close> shows the
  displayable message at position \<open>i\<close>. Whenever the filter returns for a log and for the
  log with more messages appended, the displayable messages of the first are a prefix of
  those of the second: every row that existed keeps its index and its message, and stays
  below \<open>count\<close>.
\<close>

theorem C8_rows_stable_under_append:
  assumes "displayableMessages vs = Inr old" and "displayableMessages (vs @ ws) = Inr new"
    and "i < length old"
  shows "prefix old new
    \<and> virtual_row new i = virtual_row old i
    \<and> count (rowVirtualizer old) = length old
    \<and> count (rowVirtualizer new) = length new
    \<and> i < count (rowVirtualizer new)
    \<and> estimateSize (rowVirtualizer new) i = 150
    \<and> overscan (rowVirtualizer new) = 5
    \<and> getItemKey (rowVirtualizer new) = None
    \<and> fullscreenRowVirtualizer new = (rowVirtualizer new)\<lparr>getScrollElement := fullscreenScrollRef\<rparr>
    \<and> (length other = length new \<longrightarrow> rowVirtualizer other = rowVirtualizer new)"
proof -
  obtain more where n: "new = old @ more"
    using assms(1,2) displayableMessages_append [of vs ws]
    by (cases "filter_loop (vs @ ws) (length vs) ws") auto
  have 1: "prefix old new" and 2: "virtual_row new i = virtual_row old i"
    and 3: "i < count (rowVirtualizer new)"
    using n assms(3) by (simp_all add: virtual_row_def nth_append rowVirtualizer_def)
  show ?thesis
    using 1 2 3 by (simp add: rowVirtualizer_def fullscreenRowVirtualizer_def)
qed

theorem C8_witness:
  "virtual_row (map Obj [meta_first_log ! 1, hello_log ! 0]) 0 =
     Obj (with_content ''assistant'' [text_block ''hello''])
   \<and> count (rowVirtualizer (map Obj [meta_first_log ! 1, hello_log ! 0])) = 2"
proof -
  have p: "projection meta_first_log = [meta_first_log ! 1]"
    by (simp add: meta_first_log_def rule_defs sample_defs upt_0_2)
  have v: "visible meta_first_log (hello_log ! 0)"
    by (simp add: hello_log_def rule_defs sample_defs)
  have a: "displayableMessages (map Obj meta_first_log) = Inr (map Obj [meta_first_log ! 1])"
    by (simp only: displayableMessages_events p)
  have q: "map Obj meta_first_log @ map Obj hello_log = map Obj (meta_first_log @ [hello_log ! 0])"
    by (simp add: hello_log_def)
  have b: "displayableMessages (map Obj meta_first_log @ map Obj hello_log) =
      Inr (map Obj [meta_first_log ! 1, hello_log ! 0])"
    unfolding q by (simp only: displayableMessages_events projection_snoc p v if_True append.simps)
  have i: "0 < length (map Obj [meta_first_log ! 1])"
    by simp
  have e: "virtual_row (map Obj [meta_first_log ! 1]) 0 =
      Obj (with_content ''assistant'' [text_block ''hello''])"
    "length (map Obj [meta_first_log ! 1, hello_log ! 0]) = 2"
    by (simp_all add: virtual_row_def meta_first_log_def)
  show ?thesis
    using C8_rows_stable_under_append [OF a b i, unfolded e] by blast
qed

subsection \<open>C9: the case of the prefix\<close>




subsection \<open>C10: the stop marker\<close>



end
